theory Spec2Isabelle
  imports Main "HOL-Library.Char_ord" "HOL-Library.List_Lexorder" "HOL-Library.Multiset"
begin

section \<open>JavaScript values and the coercions the script relies on\<close>

text \<open>
  The script \<^verbatim>\<open>manage_program.js\<close> works on values that come out of parsed JSON
  responses, and on \<^verbatim>\<open>undefined\<close>, which a lookup of an absent property yields.
  Strings are lists of code units; this development covers code units below 256, which
  includes every literal of the script. Numbers are kept abstract in the type \<open>'n\<close>: the
  script never computes with them, it only turns them into text, so the number-to-text
  conversion of the runtime is a parameter \<open>nts\<close> of every function that may need it.
  An object is the list of its own properties in enumeration order.
\<close>

datatype error = TypeError | SyntaxError | ReferenceError

datatype 'n val =
    JUndefined
  | JNull
  | JBool bool
  | JNum 'n
  | JStr string
  | JArr "'n val list"
  | JObj "(string \<times> 'n val) list"

text \<open>
  \<open>to_string nts v\<close> is the text that string concatenation \<^verbatim>\<open>'...' + v\<close> and the loose
  comparison \<^verbatim>\<open>v == '...'\<close> convert \<open>v\<close> to. An array is joined with commas, its
  \<^verbatim>\<open>null\<close> and \<^verbatim>\<open>undefined\<close> elements giving the empty text. A parsed object inherits
  \<^verbatim>\<open>toString\<close> from the object prototype and reads \<^verbatim>\<open>[object Object]\<close>, unless it has an
  own property named \<^verbatim>\<open>toString\<close>: that property hides the inherited method, is not
  callable (no parsed value is), and the conversion raises a TypeError.
\<close>

fun to_string :: "('n \<Rightarrow> string) \<Rightarrow> 'n val \<Rightarrow> error + string"
  and join :: "('n \<Rightarrow> string) \<Rightarrow> 'n val list \<Rightarrow> error + string"
  and join_element :: "('n \<Rightarrow> string) \<Rightarrow> 'n val \<Rightarrow> error + string"
where
  "to_string nts JUndefined = Inr ''undefined''"
| "to_string nts JNull = Inr ''null''"
| "to_string nts (JBool b) = Inr (if b then ''true'' else ''false'')"
| "to_string nts (JNum n) = Inr (nts n)"
| "to_string nts (JStr s) = Inr s"
| "to_string nts (JArr xs) = join nts xs"
| "to_string nts (JObj ps) =
     (if ''toString'' \<in> set (map fst ps) then Inl TypeError else Inr ''[object Object]'')"
| "join nts [] = Inr ''''"
| "join nts [x] = join_element nts x"
| "join nts (x # y # ys) =
     (case join_element nts x of
        Inl e \<Rightarrow> Inl e
      | Inr a \<Rightarrow> (case join nts (y # ys) of Inl e \<Rightarrow> Inl e | Inr b \<Rightarrow> Inr (a @ '','' @ b)))"
| "join_element nts JUndefined = Inr ''''"
| "join_element nts JNull = Inr ''''"
| "join_element nts (JBool b) = to_string nts (JBool b)"
| "join_element nts (JNum n) = to_string nts (JNum n)"
| "join_element nts (JStr s) = to_string nts (JStr s)"
| "join_element nts (JArr xs) = to_string nts (JArr xs)"
| "join_element nts (JObj ps) = to_string nts (JObj ps)"

text \<open>
  The decimal numeral of a natural number: the property names of the elements of an array
  and of the code units of a string.
\<close>

definition digits :: string where
  "digits = ''0123456789''"

fun show_nat :: "nat \<Rightarrow> string" where
  "show_nat n = (if n < 10 then [digits ! n] else show_nat (n div 10) @ [digits ! (n mod 10)])"

declare show_nat.simps [simp del]

text \<open>
  The own enumerable properties of a value, in the order in which \<^verbatim>\<open>for (var key in v)\<close>
  visits them. An array has its indices, a string the indices of its code units; numbers,
  booleans, \<^verbatim>\<open>null\<close> and \<^verbatim>\<open>undefined\<close> have none (and \<^verbatim>\<open>for ... in\<close> over them runs
  zero times without raising).
\<close>

fun own_props :: "'n val \<Rightarrow> (string \<times> 'n val) list" where
  "own_props (JObj ps) = ps"
| "own_props (JArr xs) = zip (map show_nat [0..<length xs]) xs"
| "own_props (JStr s) = zip (map show_nat [0..<length s]) (map (\<lambda>c. JStr [c]) s)"
| "own_props JUndefined = []"
| "own_props JNull = []"
| "own_props (JBool b) = []"
| "own_props (JNum n) = []"

definition for_in_keys :: "'n val \<Rightarrow> string list" where
  "for_in_keys v = map fst (own_props v)"

text \<open>
  \<open>get_prop v k\<close> is the property read \<^verbatim>\<open>v[k]\<close>, for the names the script reads: the
  fixed names \<^verbatim>\<open>mode\<close>, \<^verbatim>\<open>temperature\<close>, \<^verbatim>\<open>duration\<close>, \<^verbatim>\<open>start_temperature\<close>,
  \<^verbatim>\<open>end_temperature\<close>, \<^verbatim>\<open>num_repeats\<close>, \<^verbatim>\<open>scientist\<close>, \<^verbatim>\<open>name\<close>, \<^verbatim>\<open>driver\<close>,
  \<^verbatim>\<open>steps\<close>, none of which a built-in prototype defines, and the own keys that
  \<^verbatim>\<open>for ... in\<close> has just listed. Reading a property of \<^verbatim>\<open>null\<close> or \<^verbatim>\<open>undefined\<close> raises
  a TypeError; an absent property reads \<^verbatim>\<open>undefined\<close>.
\<close>

fun get_prop :: "'n val \<Rightarrow> string \<Rightarrow> error + 'n val" where
  "get_prop JUndefined k = Inl TypeError"
| "get_prop JNull k = Inl TypeError"
| "get_prop v k = Inr (case map_of (own_props v) k of None \<Rightarrow> JUndefined | Some x \<Rightarrow> x)"

text \<open>Sequencing of computations that may raise: the first error ends the computation.\<close>

definition bindE :: "error + 'a \<Rightarrow> ('a \<Rightarrow> error + 'b) \<Rightarrow> error + 'b" where
  "bindE m f = (case m of Inl e \<Rightarrow> Inl e | Inr x \<Rightarrow> f x)"

text \<open>
  \<open>eq_literal nts v lit\<close> is the loose comparison \<^verbatim>\<open>v == lit\<close> against one of the string
  literals \<^verbatim>\<open>'set'\<close>, \<^verbatim>\<open>'linear'\<close>, \<^verbatim>\<open>'hold'\<close>, \<^verbatim>\<open>'repeat'\<close>. None of them reads as a
  number, so a number or a boolean never equals them (the comparison is made between
  numbers, and the literal converts to NaN); \<^verbatim>\<open>null\<close> and \<^verbatim>\<open>undefined\<close> equal only each
  other; a string is compared code unit by code unit; an array or an object is first
  converted to its text, which may raise.
\<close>

fun eq_literal :: "('n \<Rightarrow> string) \<Rightarrow> 'n val \<Rightarrow> string \<Rightarrow> error + bool" where
  "eq_literal nts JUndefined lit = Inr False"
| "eq_literal nts JNull lit = Inr False"
| "eq_literal nts (JBool b) lit = Inr False"
| "eq_literal nts (JNum n) lit = Inr False"
| "eq_literal nts (JStr s) lit = Inr (s = lit)"
| "eq_literal nts (JArr xs) lit = bindE (to_string nts (JArr xs)) (\<lambda>s. Inr (s = lit))"
| "eq_literal nts (JObj ps) lit = bindE (to_string nts (JObj ps)) (\<lambda>s. Inr (s = lit))"

text \<open>\<open>mode_is nts data lit\<close> is the test \<^verbatim>\<open>data['mode'] == lit\<close>.\<close>

definition mode_is :: "('n \<Rightarrow> string) \<Rightarrow> 'n val \<Rightarrow> string \<Rightarrow> error + bool" where
  "mode_is nts data lit = bindE (get_prop data ''mode'') (\<lambda>m. eq_literal nts m lit)"

text \<open>\<open>plus_field nts s data k\<close> is the concatenation \<^verbatim>\<open>s + data[k]\<close> for a string \<open>s\<close>.\<close>

definition plus_field :: "('n \<Rightarrow> string) \<Rightarrow> string \<Rightarrow> 'n val \<Rightarrow> string \<Rightarrow> error + string" where
  "plus_field nts s data k =
     bindE (get_prop data k) (\<lambda>v. bindE (to_string nts v) (\<lambda>t. Inr (s @ t)))"

section \<open>The function \<^verbatim>\<open>display_step\<close>\<close>

text \<open>
  The four tests are made in the order of the source; a function that reaches its end
  without \<^verbatim>\<open>return\<close> yields \<^verbatim>\<open>undefined\<close>. The degree sign is spelled by the source as the
  HTML character reference \<^verbatim>\<open>&deg;\<close>.
\<close>

definition display_step :: "('n \<Rightarrow> string) \<Rightarrow> 'n val \<Rightarrow> error + 'n val" where
  "display_step nts data =
     bindE (mode_is nts data ''set'') (\<lambda>is_set.
       if is_set then
         bindE (plus_field nts ''Set to '' data ''temperature'') (\<lambda>s1.
         bindE (plus_field nts (s1 @ ''&deg;C for '') data ''duration'') (\<lambda>s2.
         Inr (JStr (s2 @ '' seconds''))))
       else
     bindE (mode_is nts data ''linear'') (\<lambda>is_linear.
       if is_linear then
         bindE (plus_field nts ''Ramp from '' data ''start_temperature'') (\<lambda>s1.
         bindE (plus_field nts (s1 @ ''&deg;C to '') data ''end_temperature'') (\<lambda>s2.
         bindE (plus_field nts (s2 @ ''&deg;C over '') data ''duration'') (\<lambda>s3.
         Inr (JStr (s3 @ '' seconds.'')))))
       else
     bindE (mode_is nts data ''hold'') (\<lambda>is_hold.
       if is_hold then
         bindE (plus_field nts ''Hold at '' data ''temperature'') (\<lambda>s1.
         Inr (JStr (s1 @ ''&deg;C'')))
       else
     bindE (mode_is nts data ''repeat'') (\<lambda>is_repeat.
       if is_repeat then
         bindE (plus_field nts ''Repeat '' data ''num_repeats'') (\<lambda>s1.
         Inr (JStr (s1 @ '' times'')))
       else Inr JUndefined))))"

text \<open>
  The decimal numeral of an integer: the text of an integer-valued number of moderate
  size, used where an example needs concrete numbers.
\<close>

definition show_int :: "int \<Rightarrow> string" where
  "show_int i = (if i < 0 then ''-'' @ show_nat (nat (- i)) else show_nat (nat i))"

section \<open>The page\<close>

text \<open>
  The helper \<^verbatim>\<open>http(path, method, body, onSuccess)\<close> is not part of the script. Of a
  call, the page keeps the method, the path, which of the script's three callbacks was
  passed, and whether the helper has invoked it yet (it does so at most once, on
  success). The body is \<^verbatim>\<open>null\<close> in every call.
\<close>

datatype callback = OnProgram | OnDriver | OnDelete

record request =
  meth :: string
  path :: string
  on_success :: callback
  fired :: bool

text \<open>
  The state of the page: the script's global variables (\<open>None\<close> while a variable has
  not been assigned), for each of the three elements the argument of the last
  \<^verbatim>\<open>.html(...)\<close> call on it (\<open>None\<close> while the script has not touched it), the last
  value assigned to \<^verbatim>\<open>window.location.href\<close>, the calls of \<^verbatim>\<open>http\<close> in order, and the
  parameter names passed to the URL reader \<^verbatim>\<open>get_id\<close>.
\<close>

record 'n page =
  program_id :: string
  scientist :: "'n val option"
  step_data :: "'n val option"
  step_keys :: "string list option"
  steps :: "string option"
  program_title :: "'n val option"
  driver_name :: "string option"
  program_details :: "string option"
  location :: "string option"
  requests :: "request list"
  get_id_calls :: "string list"

definition http :: "string \<Rightarrow> string \<Rightarrow> callback \<Rightarrow> 'n page \<Rightarrow> 'n page" where
  "http p m cb s =
     s\<lparr>requests := requests s @ [\<lparr>meth = m, path = p, on_success = cb, fired = False\<rparr>]\<rparr>"

text \<open>
  The first loop of the success callback pushes the keys of \<^verbatim>\<open>step_data\<close> one by one
  onto the empty array.
\<close>

definition collect_keys :: "'n val \<Rightarrow> string list" where
  "collect_keys sd = foldl (\<lambda>ks key. ks @ [key]) [] (for_in_keys sd)"

text \<open>
  The second loop: for each key in turn, one row is appended to \<^verbatim>\<open>steps\<close>. It returns
  the value of \<^verbatim>\<open>steps\<close> when it stops, and the error if a row raised.
\<close>

fun render_rows ::
  "('n \<Rightarrow> string) \<Rightarrow> 'n val \<Rightarrow> string list \<Rightarrow> string \<Rightarrow> string \<times> error option" where
  "render_rows nts sd [] acc = (acc, None)"
| "render_rows nts sd (k # ks) acc =
     (case bindE (get_prop sd k) (display_step nts) of
        Inl e \<Rightarrow> (acc, Some e)
      | Inr cell \<Rightarrow>
          (case to_string nts cell of
             Inl e \<Rightarrow> (acc, Some e)
           | Inr c \<Rightarrow>
               render_rows nts sd ks
                 (acc @ ''<tr><td>'' @ k @ ''</td><td>'' @ c @ ''</td></tr>'')))"

text \<open>
  The success callback of the program request. \<open>parse\<close> is \<^verbatim>\<open>JSON.parse\<close> of the
  runtime. An error ends the callback where it is raised; what was assigned before stays.
\<close>

definition program_loaded ::
  "('n \<Rightarrow> string) \<Rightarrow> (string \<Rightarrow> error + 'n val) \<Rightarrow> 'n val \<Rightarrow> 'n page \<Rightarrow> 'n page" where
  "program_loaded nts parse response s0 =
     (case get_prop response ''scientist'' of Inl e \<Rightarrow> s0 | Inr sci \<Rightarrow>
      let s1 = s0\<lparr>scientist := Some sci\<rparr> in
     (case get_prop response ''name'' of Inl e \<Rightarrow> s1 | Inr nm \<Rightarrow>
      let s2 = s1\<lparr>program_title := Some nm\<rparr> in
     (case plus_field nts ''driver/'' response ''driver'' of Inl e \<Rightarrow> s2 | Inr p \<Rightarrow>
      let s3 = http p ''GET'' OnDriver s2 in
     (case bindE (bindE (get_prop response ''steps'') (to_string nts)) parse of
        Inl e \<Rightarrow> s3
      | Inr sd \<Rightarrow>
      let s4 = s3\<lparr>step_data := Some sd, step_keys := Some (sort (collect_keys sd)),
                  steps := Some []\<rparr>;
          (html, err) = render_rows nts sd (sort (collect_keys sd)) [];
          s5 = s4\<lparr>steps := Some html\<rparr>
      in (case err of Some e \<Rightarrow> s5 | None \<Rightarrow> s5\<lparr>program_details := Some html\<rparr>)))))"

text \<open>The success callback of the driver request.\<close>

definition driver_loaded :: "('n \<Rightarrow> string) \<Rightarrow> 'n val \<Rightarrow> 'n page \<Rightarrow> 'n page" where
  "driver_loaded nts driver_response s =
     (case plus_field nts ''Driver: '' driver_response ''name'' of
        Inl e \<Rightarrow> s
      | Inr t \<Rightarrow> s\<lparr>driver_name := Some t\<rparr>)"

text \<open>
  The success callback of the delete request. Reading \<^verbatim>\<open>scientist\<close> before it was ever
  assigned raises a ReferenceError.
\<close>

definition deleted :: "('n \<Rightarrow> string) \<Rightarrow> 'n val \<Rightarrow> 'n page \<Rightarrow> 'n page" where
  "deleted nts response s =
     (case scientist s of
        None \<Rightarrow> s
      | Some v \<Rightarrow>
          (case to_string nts v of
             Inl e \<Rightarrow> s
           | Inr t \<Rightarrow> s\<lparr>location := Some (''/program?user='' @ t)\<rparr>))"

text \<open>
  The ready handler, up to the point where it returns: it reads the parameter \<^verbatim>\<open>id\<close>,
  issues the program request and binds the click handler.
\<close>

definition ready :: "(string \<Rightarrow> string) \<Rightarrow> 'n page" where
  "ready get_id =
     (let s = \<lparr>program_id = get_id ''id'', scientist = None, step_data = None,
               step_keys = None, steps = None, program_title = None, driver_name = None,
               program_details = None, location = None, requests = [],
               get_id_calls = [''id'']\<rparr>
      in http (''program/'' @ program_id s) ''GET'' OnProgram s)"

text \<open>The click handler; \<open>confirmed\<close> is the answer of \<^verbatim>\<open>window.confirm\<close>.\<close>

definition delete_clicked :: "bool \<Rightarrow> 'n page \<Rightarrow> 'n page" where
  "delete_clicked confirmed s =
     (if confirmed then http (''program/'' @ program_id s) ''DELETE'' OnDelete s else s)"

text \<open>
  What happens to the page after the ready handler: the request with a given number
  succeeds with a response, or the delete control is clicked and the prompt answered.
\<close>

datatype 'n event = Success nat "'n val" | Click bool

definition run_callback ::
  "('n \<Rightarrow> string) \<Rightarrow> (string \<Rightarrow> error + 'n val) \<Rightarrow> callback \<Rightarrow> 'n val \<Rightarrow> 'n page \<Rightarrow> 'n page" where
  "run_callback nts parse cb r s =
     (case cb of
        OnProgram \<Rightarrow> program_loaded nts parse r s
      | OnDriver \<Rightarrow> driver_loaded nts r s
      | OnDelete \<Rightarrow> deleted nts r s)"

fun step ::
  "('n \<Rightarrow> string) \<Rightarrow> (string \<Rightarrow> error + 'n val) \<Rightarrow> 'n page \<Rightarrow> 'n event \<Rightarrow> 'n page" where
  "step nts parse s (Click confirmed) = delete_clicked confirmed s"
| "step nts parse s (Success i r) =
     (if i < length (requests s) \<and> \<not> fired (requests s ! i)
      then run_callback nts parse (on_success (requests s ! i)) r
             (s\<lparr>requests := (requests s)[i := (requests s ! i)\<lparr>fired := True\<rparr>]\<rparr>)
      else s)"

definition run ::
  "('n \<Rightarrow> string) \<Rightarrow> (string \<Rightarrow> error + 'n val) \<Rightarrow> 'n page \<Rightarrow> 'n event list \<Rightarrow> 'n page" where
  "run nts parse s es = foldl (step nts parse) s es"

section \<open>Notions used to state the properties\<close>

text \<open>A table row with the key in its first cell and \<open>c\<close> in its second.\<close>

definition table_row :: "string \<Rightarrow> string \<Rightarrow> string" where
  "table_row k c = ''<tr><td>'' @ k @ ''</td><td>'' @ c @ ''</td></tr>''"

text \<open>
  What the page shows. The argument of \<^verbatim>\<open>.html(...)\<close> is HTML text, and the browser
  reads a character reference in it as the character it names. The script writes one
  character reference, \<^verbatim>\<open>&deg;\<close>, which names the degree sign (the code unit B0).
  \<open>rendered\<close> reads the text with that reference decoded; everything else in the text
  is left as it is.
\<close>

fun rendered :: "string \<Rightarrow> string" where
  "rendered [] = []"
| "rendered (c # cs) =
     (if take 5 (c # cs) = ''&deg;'' then CHR 0xB0 # rendered (drop 4 cs)
      else c # rendered cs)"

declare rendered.simps [simp del]

text \<open>
  The content of the second cell of the row for key \<open>k\<close>: the text of what
  \<^verbatim>\<open>display_step\<close> returns for the step stored under \<open>k\<close>, or the error raised on the
  way. \<open>cell\<close> is that text where there is one.
\<close>

definition cell_text :: "('n \<Rightarrow> string) \<Rightarrow> 'n val \<Rightarrow> string \<Rightarrow> error + string" where
  "cell_text nts sd k = bindE (bindE (get_prop sd k) (display_step nts)) (to_string nts)"

definition cell :: "('n \<Rightarrow> string) \<Rightarrow> 'n val \<Rightarrow> string \<Rightarrow> string" where
  "cell nts sd k = (case cell_text nts sd k of Inl e \<Rightarrow> [] | Inr c \<Rightarrow> c)"

text \<open>The fields that belong to each of the four modes, as the data model lists them.\<close>

definition mode_fields :: "string \<Rightarrow> string list" where
  "mode_fields m =
     (if m = ''set'' then [''temperature'', ''duration'']
      else if m = ''linear'' then [''start_temperature'', ''end_temperature'', ''duration'']
      else if m = ''hold'' then [''temperature'']
      else if m = ''repeat'' then [''num_repeats'']
      else [])"

text \<open>
  Invariants of the page. The first call of \<^verbatim>\<open>http\<close> is the program request; every
  later one is a driver request or a delete request for the same program.
\<close>

definition program_request :: "string \<Rightarrow> request \<Rightarrow> bool" where
  "program_request pid q \<longleftrightarrow>
     meth q = ''GET'' \<and> path q = ''program/'' @ pid \<and> on_success q = OnProgram"

definition later_request :: "string \<Rightarrow> request \<Rightarrow> bool" where
  "later_request pid q \<longleftrightarrow>
     (on_success q = OnDriver \<and> meth q = ''GET'') \<or>
     (on_success q = OnDelete \<and> meth q = ''DELETE'' \<and> path q = ''program/'' @ pid)"

definition requests_inv :: "string \<Rightarrow> request list \<Rightarrow> bool" where
  "requests_inv pid rs \<longleftrightarrow>
     rs \<noteq> [] \<and> program_request pid (rs ! 0) \<and>
     (\<forall>i < length rs. 0 < i \<longrightarrow> later_request pid (rs ! i))"

definition page_inv :: "string \<Rightarrow> 'n page \<Rightarrow> bool" where
  "page_inv pid s \<longleftrightarrow>
     program_id s = pid \<and> get_id_calls s = [''id''] \<and> requests_inv pid (requests s)"

text \<open>While the program request has not succeeded, and once it has.\<close>

definition awaiting_program :: "'n page \<Rightarrow> bool" where
  "awaiting_program s \<longleftrightarrow>
     \<not> fired (requests s ! 0) \<and> scientist s = None \<and> program_title s = None \<and>
     driver_name s = None \<and> program_details s = None \<and>
     (\<forall>i < length (requests s). 0 < i \<longrightarrow> on_success (requests s ! i) = OnDelete)"

definition program_arrived :: "'n val \<Rightarrow> 'n page \<Rightarrow> bool" where
  "program_arrived sci s \<longleftrightarrow> fired (requests s ! 0) \<and> scientist s = Some sci"

text \<open>The request number \<open>n\<close> is a delete request that has not succeeded yet.\<close>

definition delete_pending :: "nat \<Rightarrow> 'n page \<Rightarrow> bool" where
  "delete_pending n s \<longleftrightarrow>
     n < length (requests s) \<and> on_success (requests s ! n) = OnDelete \<and>
     \<not> fired (requests s ! n)"

section \<open>Concrete pages for the examples\<close>

text \<open>
  The examples need a number-to-text conversion, a \<^verbatim>\<open>JSON.parse\<close> and a URL reader.
  \<open>show_int\<close> above is the first. \<open>parse_table\<close> is a \<^verbatim>\<open>JSON.parse\<close> that knows the
  listed texts only, and \<open>query\<close> a reader of the listed URL parameters. An object that
  \<^verbatim>\<open>JSON.parse\<close> returns enumerates its integer-like keys first, in ascending numeric
  order, whatever their order in the text.
\<close>

definition parse_table :: "(string \<times> 'n val) list \<Rightarrow> string \<Rightarrow> error + 'n val" where
  "parse_table tab text = (case map_of tab text of None \<Rightarrow> Inl SyntaxError | Some v \<Rightarrow> Inr v)"

definition query :: "(string \<times> string) list \<Rightarrow> string \<Rightarrow> string" where
  "query ps name = (case map_of ps name of None \<Rightarrow> [] | Some v \<Rightarrow> v)"

definition bake_steps_text :: string where
  \<open>bake_steps_text = ''{"1":{"mode":"hold","temperature":180}}''\<close>

definition bake_steps :: "int val" where
  "bake_steps = JObj [(''1'', JObj [(''mode'', JStr ''hold''), (''temperature'', JNum 180)])]"

definition bake_response :: "'n val" where
  "bake_response =
     JObj [(''name'', JStr ''Bake''), (''driver'', JStr ''7''), (''scientist'', JStr ''alice''),
           (''steps'', JStr bake_steps_text)]"

definition oven_response :: "'n val" where
  "oven_response = JObj [(''name'', JStr ''OvenX'')]"

definition keyed_steps_text :: string where
  \<open>keyed_steps_text =
     ''{"2":{"mode":"hold","temperature":50},"10":{"mode":"set","temperature":30,"duration":5},"1":{"mode":"hold","temperature":20}}''\<close>

definition keyed_steps :: "int val" where
  "keyed_steps =
     JObj [(''1'', JObj [(''mode'', JStr ''hold''), (''temperature'', JNum 20)]),
           (''2'', JObj [(''mode'', JStr ''hold''), (''temperature'', JNum 50)]),
           (''10'', JObj [(''mode'', JStr ''set''), (''temperature'', JNum 30),
                          (''duration'', JNum 5)])]"

definition keyed_response :: "'n val" where
  "keyed_response =
     JObj [(''name'', JStr ''Keyed''), (''driver'', JStr ''7''), (''scientist'', JStr ''alice''),
           (''steps'', JStr keyed_steps_text)]"

definition example_parse :: "string \<Rightarrow> error + int val" where
  "example_parse = parse_table [(bake_steps_text, bake_steps), (keyed_steps_text, keyed_steps)]"

definition example_url :: "string \<Rightarrow> string" where
  "example_url = query [(''id'', ''42'')]"

section \<open>Basic facts\<close>

lemma bindE_Inr [simp]: "bindE (Inr x) f = f x"
  by (simp add: bindE_def)

lemma bindE_Inl [simp]: "bindE (Inl e) f = Inl e"
  by (simp add: bindE_def)

lemma bindE_eq_Inr: "bindE m f = Inr y \<longleftrightarrow> (\<exists>x. m = Inr x \<and> f x = Inr y)"
  by (cases m) simp_all

lemma foldl_snoc: "foldl (\<lambda>ks key. ks @ [key]) acc xs = acc @ xs"
  by (induction xs arbitrary: acc) simp_all

lemma collect_keys_eq: "collect_keys sd = for_in_keys sd"
  by (simp add: collect_keys_def foldl_snoc)

lemma run_append: "run nts parse s (es @ es') = run nts parse (run nts parse s es) es'"
  by (simp add: run_def)

lemma run_Cons: "run nts parse s (e # es) = run nts parse (step nts parse s e) es"
  by (simp add: run_def)

subsection \<open>The row loop\<close>

text \<open>If the loop ends without an error, it has appended one row for each key, in order.\<close>

lemma render_rows_written:
  "render_rows nts sd ks acc = (html, None) \<Longrightarrow>
   html = acc @ concat (map (\<lambda>k. table_row k (cell nts sd k)) ks)"
proof (induction ks arbitrary: acc)
  case Nil
  then show ?case by simp
next
  case (Cons k ks)
  from Cons.prems obtain c where c: "cell_text nts sd k = Inr c"
    and rest: "render_rows nts sd ks (acc @ table_row k c) = (html, None)"
    by (auto simp add: cell_text_def table_row_def bindE_eq_Inr split: sum.splits)
  from Cons.IH [OF rest] c show ?case
    by (simp add: cell_def)
qed

text \<open>It ends without an error when every cell has a text, and only then.\<close>

lemma render_rows_total:
  "\<forall>k \<in> set ks. \<exists>c. cell_text nts sd k = Inr c \<Longrightarrow>
   render_rows nts sd ks acc = (acc @ concat (map (\<lambda>k. table_row k (cell nts sd k)) ks), None)"
proof (induction ks arbitrary: acc)
  case Nil
  then show ?case by simp
next
  case (Cons k ks)
  then obtain c where c: "cell_text nts sd k = Inr c" by auto
  then obtain v where v: "bindE (get_prop sd k) (display_step nts) = Inr v"
    and t: "to_string nts v = Inr c"
    by (auto simp add: cell_text_def bindE_eq_Inr)
  from Cons have "render_rows nts sd ks (acc @ table_row k c) =
     ((acc @ table_row k c) @ concat (map (\<lambda>k. table_row k (cell nts sd k)) ks), None)"
    by simp
  with v t c show ?case
    by (simp add: cell_def table_row_def)
qed

lemma render_rows_raises:
  "k \<in> set ks \<Longrightarrow> cell_text nts sd k = Inl e \<Longrightarrow> snd (render_rows nts sd ks acc) \<noteq> None"
proof (induction ks arbitrary: acc)
  case Nil
  then show ?case by simp
next
  case (Cons a ks)
  then show ?case
    by (cases "a = k") (auto simp add: cell_text_def bindE_def split: sum.splits)
qed


subsection \<open>What each callback changes\<close>

lemma program_loaded_frame [simp]:
  "program_id (program_loaded nts parse r s) = program_id s"
  "get_id_calls (program_loaded nts parse r s) = get_id_calls s"
  "location (program_loaded nts parse r s) = location s"
  "driver_name (program_loaded nts parse r s) = driver_name s"
  by (simp_all add: program_loaded_def Let_def http_def
      split: sum.splits prod.splits option.splits)

lemma program_loaded_requests:
  "requests (program_loaded nts parse r s) = requests s \<or>
   (\<exists>p. requests (program_loaded nts parse r s) =
      requests s @ [\<lparr>meth = ''GET'', path = p, on_success = OnDriver, fired = False\<rparr>])"
  by (simp add: program_loaded_def Let_def http_def
      split: sum.splits prod.splits option.splits)

lemma program_loaded_scientist:
  "get_prop r ''scientist'' = Inr sci \<Longrightarrow> scientist (program_loaded nts parse r s) = Some sci"
  by (cases r)
    (simp_all add: program_loaded_def Let_def http_def
      split: sum.splits prod.splits option.splits)

text \<open>
  When the callback sets the steps container, the response's \<^verbatim>\<open>steps\<close> has parsed, the
  result is in \<^verbatim>\<open>step_data\<close>, and the row loop has run to its end over the sorted keys.
\<close>

lemma program_loaded_details:
  assumes "program_details s = None"
    and "program_details (program_loaded nts parse response s) = Some html"
  shows "\<exists>sd. bindE (bindE (get_prop response ''steps'') (to_string nts)) parse = Inr sd
           \<and> step_data (program_loaded nts parse response s) = Some sd
           \<and> render_rows nts sd (sort (for_in_keys sd)) [] = (html, None)"
  using assms
  by (auto simp add: program_loaded_def Let_def http_def collect_keys_eq
      split: sum.splits prod.splits option.splits)

text \<open>
  The container is set when nothing raises: the response is not \<^verbatim>\<open>null\<close>, the driver
  path and the steps have a text, the text parses, and every cell has a text.
\<close>

lemma program_loaded_writes:
  assumes "get_prop response ''scientist'' = Inr sci"
    and "plus_field nts ''driver/'' response ''driver'' = Inr p"
    and "bindE (bindE (get_prop response ''steps'') (to_string nts)) parse = Inr sd"
    and "\<forall>k \<in> set (for_in_keys sd). \<exists>c. cell_text nts sd k = Inr c"
  shows "program_details (program_loaded nts parse response s) =
           Some (concat (map (\<lambda>k. table_row k (cell nts sd k)) (sort (for_in_keys sd))))"
proof -
  from assms(1) obtain nm where nm: "get_prop response ''name'' = Inr nm"
    by (cases response) simp_all
  from assms(4) have "render_rows nts sd (sort (for_in_keys sd)) [] =
      ([] @ concat (map (\<lambda>k. table_row k (cell nts sd k)) (sort (for_in_keys sd))), None)"
    by (intro render_rows_total) simp
  with assms(1-3) nm show ?thesis
    by (simp add: program_loaded_def Let_def collect_keys_eq)
qed

text \<open>A step that raises ends the callback before the container is set.\<close>

lemma program_loaded_raises:
  assumes "bindE (bindE (get_prop response ''steps'') (to_string nts)) parse = Inr sd"
    and "k \<in> set (for_in_keys sd)" and "cell_text nts sd k = Inl e"
  shows "program_details (program_loaded nts parse response s) = program_details s"
proof -
  from assms(2,3) have "snd (render_rows nts sd (sort (for_in_keys sd)) []) \<noteq> None"
    by (intro render_rows_raises [of k]) simp_all
  with assms(1) show ?thesis
    by (auto simp add: program_loaded_def Let_def http_def collect_keys_eq
        split: sum.splits prod.splits option.splits)
qed

lemma driver_loaded_frame [simp]:
  "program_id (driver_loaded nts r s) = program_id s"
  "get_id_calls (driver_loaded nts r s) = get_id_calls s"
  "requests (driver_loaded nts r s) = requests s"
  "scientist (driver_loaded nts r s) = scientist s"
  "program_details (driver_loaded nts r s) = program_details s"
  "location (driver_loaded nts r s) = location s"
  by (simp_all add: driver_loaded_def split: sum.splits)

lemma deleted_frame [simp]:
  "program_id (deleted nts r s) = program_id s"
  "get_id_calls (deleted nts r s) = get_id_calls s"
  "requests (deleted nts r s) = requests s"
  "scientist (deleted nts r s) = scientist s"
  "program_title (deleted nts r s) = program_title s"
  "driver_name (deleted nts r s) = driver_name s"
  "program_details (deleted nts r s) = program_details s"
  by (simp_all add: deleted_def split: sum.splits option.splits)

lemma program_loaded_nth:
  "n < length (requests s) \<Longrightarrow> requests (program_loaded nts parse r s) ! n = requests s ! n"
  using program_loaded_requests [of nts parse r s] by (auto simp add: nth_append)

lemma program_loaded_length:
  "length (requests s) \<le> length (requests (program_loaded nts parse r s))"
  using program_loaded_requests [of nts parse r s] by auto

lemma run_callback_nth:
  "n < length (requests s) \<Longrightarrow> requests (run_callback nts parse cb r s) ! n = requests s ! n"
  by (cases cb) (simp_all add: run_callback_def program_loaded_nth)

lemma run_callback_length:
  "length (requests s) \<le> length (requests (run_callback nts parse cb r s))"
  by (cases cb) (simp_all add: run_callback_def program_loaded_length)

lemma run_callback_scientist:
  "cb \<noteq> OnProgram \<Longrightarrow> scientist (run_callback nts parse cb r s) = scientist s"
  by (cases cb) (simp_all add: run_callback_def)

subsection \<open>The requests of a page\<close>

lemma request_fired [simp]:
  "program_request pid (q\<lparr>fired := b\<rparr>) = program_request pid q"
  "later_request pid (q\<lparr>fired := b\<rparr>) = later_request pid q"
  by (simp_all add: program_request_def later_request_def)

lemma later_request_not_program: "later_request pid q \<Longrightarrow> on_success q \<noteq> OnProgram"
  by (auto simp add: later_request_def)

lemma requests_inv_append:
  "requests_inv pid rs \<Longrightarrow> later_request pid q \<Longrightarrow> requests_inv pid (rs @ [q])"
  by (auto simp add: requests_inv_def nth_append)

lemma requests_inv_fired:
  "requests_inv pid rs \<Longrightarrow> requests_inv pid (rs[i := (rs ! i)\<lparr>fired := True\<rparr>])"
  by (cases "i < length rs")
    (auto simp add: requests_inv_def nth_list_update list_update_beyond)

lemma ready_inv: "page_inv (get_id ''id'') (ready get_id)"
  by (simp add: page_inv_def requests_inv_def ready_def http_def program_request_def)

lemma ready_awaiting: "awaiting_program (ready get_id)"
  by (simp add: awaiting_program_def ready_def http_def)

lemma step_inv:
  assumes "page_inv pid s"
  shows "page_inv pid (step nts parse s e)"
proof (cases e)
  case (Click c)
  with assms show ?thesis
    by (auto simp add: page_inv_def delete_clicked_def http_def later_request_def
        intro!: requests_inv_append)
next
  case (Success i r)
  show ?thesis
  proof (cases "i < length (requests s) \<and> \<not> fired (requests s ! i)")
    case False
    with Success assms show ?thesis by auto
  next
    case True
    let ?s = "s\<lparr>requests := (requests s)[i := (requests s ! i)\<lparr>fired := True\<rparr>]\<rparr>"
    have inv': "page_inv pid ?s"
      using assms by (simp add: page_inv_def requests_inv_fired)
    have "page_inv pid (run_callback nts parse cb r ?s)" for cb
    proof (cases cb)
      case OnProgram
      have "later_request pid \<lparr>meth = ''GET'', path = p, on_success = OnDriver, fired = False\<rparr>"
        for p by (simp add: later_request_def)
      with program_loaded_requests [of nts parse r ?s] inv' show ?thesis
        unfolding OnProgram run_callback_def page_inv_def
        by (auto intro!: requests_inv_append)
    next
      case OnDriver
      with inv' show ?thesis by (simp add: run_callback_def page_inv_def)
    next
      case OnDelete
      with inv' show ?thesis by (simp add: run_callback_def page_inv_def)
    qed
    with Success True show ?thesis by simp
  qed
qed

lemma run_inv: "page_inv pid s \<Longrightarrow> page_inv pid (run nts parse s es)"
  unfolding run_def by (induction es arbitrary: s) (simp_all add: step_inv)

subsection \<open>Before and after the program request succeeds\<close>

lemma step_awaiting:
  assumes "page_inv pid s" and "awaiting_program s" and "\<forall>r. e \<noteq> Success 0 r"
  shows "awaiting_program (step nts parse s e)"
proof (cases e)
  case (Click c)
  with assms show ?thesis
    by (auto simp add: awaiting_program_def delete_clicked_def http_def nth_append)
next
  case (Success i r)
  with assms have i: "0 < i" by (cases i) auto
  show ?thesis
  proof (cases "i < length (requests s) \<and> \<not> fired (requests s ! i)")
    case False
    with Success assms show ?thesis by auto
  next
    case True
    with assms i have cb: "on_success (requests s ! i) = OnDelete"
      by (simp add: awaiting_program_def)
    with Success True assms i show ?thesis
      by (auto simp add: run_callback_def awaiting_program_def nth_list_update)
  qed
qed

lemma run_awaiting:
  "page_inv pid s \<Longrightarrow> awaiting_program s \<Longrightarrow> \<forall>r. Success 0 r \<notin> set es \<Longrightarrow>
   awaiting_program (run nts parse s es)"
  unfolding run_def
proof (induction es arbitrary: s)
  case Nil
  then show ?case by simp
next
  case (Cons e es)
  have "awaiting_program (step nts parse s e)"
    using Cons.prems by (intro step_awaiting [of pid]) auto
  moreover have "page_inv pid (step nts parse s e)"
    using Cons.prems by (simp add: step_inv)
  ultimately show ?case using Cons by simp
qed

lemma program_success:
  assumes inv: "page_inv pid s" and aw: "awaiting_program s"
    and sci: "get_prop resp ''scientist'' = Inr sci"
  shows "program_arrived sci (step nts parse s (Success 0 resp))"
proof -
  let ?s = "s\<lparr>requests := (requests s)[0 := (requests s ! 0)\<lparr>fired := True\<rparr>]\<rparr>"
  from inv have ne: "0 < length (requests s)" and cb: "on_success (requests s ! 0) = OnProgram"
    by (auto simp add: page_inv_def requests_inv_def program_request_def)
  from aw have nf: "\<not> fired (requests s ! 0)" by (simp add: awaiting_program_def)
  have st: "step nts parse s (Success 0 resp) = program_loaded nts parse resp ?s"
    using ne cb nf by (simp add: run_callback_def)
  have "requests (program_loaded nts parse resp ?s) ! 0 = requests ?s ! 0"
    using ne by (intro program_loaded_nth) simp
  then have "fired (requests (program_loaded nts parse resp ?s) ! 0)"
    using ne by simp
  with st program_loaded_scientist [OF sci, of nts parse ?s] show ?thesis
    by (simp add: program_arrived_def)
qed

lemma step_arrived:
  assumes inv: "page_inv pid s" and arr: "program_arrived sci s"
  shows "program_arrived sci (step nts parse s e)"
proof (cases e)
  case (Click c)
  with assms show ?thesis
    by (auto simp add: program_arrived_def page_inv_def requests_inv_def delete_clicked_def
        http_def nth_append)
next
  case (Success i r)
  show ?thesis
  proof (cases "i < length (requests s) \<and> \<not> fired (requests s ! i)")
    case False
    with Success arr show ?thesis by auto
  next
    case True
    with arr have i: "0 < i" by (cases i) (auto simp add: program_arrived_def)
    with inv True have cb: "on_success (requests s ! i) \<noteq> OnProgram"
      by (auto simp add: page_inv_def requests_inv_def dest: later_request_not_program)
    let ?s = "s\<lparr>requests := (requests s)[i := (requests s ! i)\<lparr>fired := True\<rparr>]\<rparr>"
    have len: "0 < length (requests ?s)" using True by auto
    have "requests (run_callback nts parse (on_success (requests s ! i)) r ?s) ! 0 =
        requests ?s ! 0"
      using len by (rule run_callback_nth)
    moreover have "requests ?s ! 0 = requests s ! 0" using i by simp
    moreover have "scientist (run_callback nts parse (on_success (requests s ! i)) r ?s) =
        scientist ?s"
      using cb by (rule run_callback_scientist)
    ultimately show ?thesis using Success True arr by (simp add: program_arrived_def)
  qed
qed

lemma run_arrived:
  "page_inv pid s \<Longrightarrow> program_arrived sci s \<Longrightarrow> program_arrived sci (run nts parse s es)"
  unfolding run_def
  by (induction es arbitrary: s) (simp_all add: step_inv step_arrived)

subsection \<open>A delete request that has not succeeded yet\<close>

lemma click_pending:
  "delete_pending (length (requests s)) (step nts parse s (Click True))"
  by (simp add: delete_pending_def delete_clicked_def http_def)

lemma step_pending:
  assumes pend: "delete_pending n s" and ne: "\<forall>r. e \<noteq> Success n r"
  shows "delete_pending n (step nts parse s e)"
proof (cases e)
  case (Click c)
  with pend show ?thesis
    by (auto simp add: delete_pending_def delete_clicked_def http_def nth_append)
next
  case (Success i r)
  with ne have i: "i \<noteq> n" by auto
  show ?thesis
  proof (cases "i < length (requests s) \<and> \<not> fired (requests s ! i)")
    case False
    with Success pend show ?thesis by auto
  next
    case True
    let ?s = "s\<lparr>requests := (requests s)[i := (requests s ! i)\<lparr>fired := True\<rparr>]\<rparr>"
    let ?t = "run_callback nts parse (on_success (requests s ! i)) r ?s"
    from pend have n: "n < length (requests ?s)" by (simp add: delete_pending_def)
    have "requests ?t ! n = requests ?s ! n" using n by (rule run_callback_nth)
    moreover have "requests ?s ! n = requests s ! n" using i by simp
    moreover have "length (requests ?s) \<le> length (requests ?t)" by (rule run_callback_length)
    ultimately have "delete_pending n ?t"
      using pend n by (simp add: delete_pending_def)
    with Success True show ?thesis by simp
  qed
qed

lemma run_pending:
  "delete_pending n s \<Longrightarrow> \<forall>r. Success n r \<notin> set es \<Longrightarrow>
   delete_pending n (run nts parse s es)"
  unfolding run_def
proof (induction es arbitrary: s)
  case Nil
  then show ?case by simp
next
  case (Cons e es)
  have "delete_pending n (step nts parse s e)"
    using Cons.prems by (intro step_pending) auto
  with Cons show ?case by simp
qed

lemma delete_success:
  assumes "delete_pending n s" and "scientist s = Some sci" and "to_string nts sci = Inr user"
  shows "location (step nts parse s (Success n r)) = Some (''/program?user='' @ user)"
  using assms by (simp add: delete_pending_def run_callback_def deleted_def)

section \<open>Properties of \<^verbatim>\<open>display_step\<close>\<close>

text \<open>
  Claim C3, as the code has it. For every step with mode \<^verbatim>\<open>set\<close> whose temperature and
  duration have the texts \<open>T\<close> and \<open>D\<close>, \<^verbatim>\<open>display_step\<close> returns exactly the string
  \<^verbatim>\<open>Set to T&deg;C for D seconds\<close>: the two texts are put in as the runtime converts the
  fields, with no rounding or reformatting, and the degree sign is spelled as the HTML
  character reference \<^verbatim>\<open>&deg;\<close>.
\<close>

theorem display_step_set:
  assumes "get_prop data ''mode'' = Inr (JStr ''set'')"
    and "get_prop data ''temperature'' = Inr t" and "to_string nts t = Inr T"
    and "get_prop data ''duration'' = Inr d" and "to_string nts d = Inr D"
  shows "display_step nts data =
           Inr (JStr (''Set to '' @ T @ ''&deg;C for '' @ D @ '' seconds''))"
  using assms by (simp add: display_step_def mode_is_def plus_field_def)

theorem display_step_set_witness:
  "display_step show_int
     (JObj [(''mode'', JStr ''set''), (''temperature'', JNum 30), (''duration'', JNum 5)]) =
   Inr (JStr ''Set to 30&deg;C for 5 seconds'')"
proof -
  let ?d = "JObj [(''mode'', JStr ''set''), (''temperature'', JNum 30),
                  (''duration'', JNum 5)] :: int val"
  have m: "get_prop ?d ''mode'' = Inr (JStr ''set'')" by simp
  have t: "get_prop ?d ''temperature'' = Inr (JNum 30)" by simp
  have d: "get_prop ?d ''duration'' = Inr (JNum 5)" by simp
  have T: "to_string show_int (JNum 30) = Inr ''30''" by code_simp
  have D: "to_string show_int (JNum 5) = Inr ''5''" by code_simp
  show ?thesis using display_step_set [OF m t T d D] by simp
qed

text \<open>
  Claim C3 as it is written has the degree sign itself (the code unit B0) in the returned
  string. For the step with mode \<^verbatim>\<open>set\<close>, temperature 30 and duration 5 the code does not
  return that string.
\<close>

theorem display_step_set_counterexample:
  "display_step show_int
     (JObj [(''mode'', JStr ''set''), (''temperature'', JNum 30), (''duration'', JNum 5)]) \<noteq>
   Inr (JStr (''Set to 30'' @ [CHR 0xB0] @ ''C for 5 seconds''))"
  by code_simp

text \<open>
  Claim C2, as the code has it. For every step whose mode compares unequal (\<^verbatim>\<open>==\<close>) to
  each of \<^verbatim>\<open>set\<close>, \<^verbatim>\<open>linear\<close>, \<^verbatim>\<open>hold\<close> and \<^verbatim>\<open>repeat\<close>, as every absent mode and every
  string, number, boolean or \<^verbatim>\<open>null\<close> other than these four strings does,
  \<^verbatim>\<open>display_step\<close> returns \<^verbatim>\<open>undefined\<close>, and the second cell of the row rendered for
  that step holds the text \<^verbatim>\<open>undefined\<close>.
\<close>

theorem display_step_unrecognized:
  assumes "get_prop data ''mode'' = Inr m"
    and "\<forall>lit \<in> {''set'', ''linear'', ''hold'', ''repeat''}. eq_literal nts m lit = Inr False"
    and "get_prop sd k = Inr data"
  shows "display_step nts data = Inr JUndefined \<and>
         render_rows nts sd [k] acc = (acc @ table_row k ''undefined'', None)"
  using assms by (simp add: display_step_def mode_is_def table_row_def)

theorem display_step_unrecognized_witness:
  "display_step show_int (JObj [(''mode'', JStr ''bogus'')]) = Inr JUndefined \<and>
   render_rows show_int (JObj [(''1'', JObj [(''mode'', JStr ''bogus'')])]) [''1''] [] =
     (''<tr><td>1</td><td>undefined</td></tr>'', None)"
proof -
  let ?d = "JObj [(''mode'', JStr ''bogus'')] :: int val"
  let ?sd = "JObj [(''1'', ?d)] :: int val"
  have m: "get_prop ?d ''mode'' = Inr (JStr ''bogus'')" by simp
  have ne: "\<forall>lit \<in> {''set'', ''linear'', ''hold'', ''repeat''}.
      eq_literal show_int (JStr ''bogus'') lit = Inr False"
    by simp
  have k: "get_prop ?sd ''1'' = Inr ?d" by simp
  show ?thesis
    using display_step_unrecognized [OF m ne k, of "[]"] by (simp add: table_row_def)
qed

text \<open>
  Claim C2 as it is written fails twice. The row rendered for a step with the mode
  \<^verbatim>\<open>bogus\<close> does not have an empty second cell; and a step whose mode is the array
  \<^verbatim>\<open>["set"]\<close>, which is not the string \<^verbatim>\<open>set\<close> but compares equal to it, is displayed
  as a \<^verbatim>\<open>set\<close> step.
\<close>

theorem display_step_unrecognized_counterexample:
  "fst (render_rows show_int (JObj [(''1'', JObj [(''mode'', JStr ''bogus'')])]) [''1''] []) \<noteq>
     ''<tr><td>1</td><td></td></tr>'' \<and>
   display_step show_int
     (JObj [(''mode'', JArr [JStr ''set'']), (''temperature'', JNum 30),
            (''duration'', JNum 5)]) \<noteq> Inr JUndefined"
  by code_simp

text \<open>
  Claim C9. Two steps with the same mode among \<^verbatim>\<open>set\<close>, \<^verbatim>\<open>linear\<close>, \<^verbatim>\<open>hold\<close>,
  \<^verbatim>\<open>repeat\<close> that agree on the fields of that mode are displayed alike, whatever other
  fields they have.
\<close>

theorem display_step_mode_fields_only:
  assumes "get_prop d1 ''mode'' = Inr (JStr m)" and "get_prop d2 ''mode'' = Inr (JStr m)"
    and "m \<in> {''set'', ''linear'', ''hold'', ''repeat''}"
    and "\<forall>k \<in> set (mode_fields m). get_prop d1 k = get_prop d2 k"
  shows "display_step nts d1 = display_step nts d2"
  using assms
  by (auto simp add: display_step_def mode_is_def plus_field_def mode_fields_def)

theorem display_step_mode_fields_only_witness:
  "display_step show_int
     (JObj [(''mode'', JStr ''hold''), (''temperature'', JNum 20), (''note'', JStr ''a'')]) =
   display_step show_int
     (JObj [(''duration'', JNum 3), (''temperature'', JNum 20), (''mode'', JStr ''hold'')])"
proof -
  let ?d1 = "JObj [(''mode'', JStr ''hold''), (''temperature'', JNum 20),
                   (''note'', JStr ''a'')] :: int val"
  let ?d2 = "JObj [(''duration'', JNum 3), (''temperature'', JNum 20),
                   (''mode'', JStr ''hold'')] :: int val"
  have m1: "get_prop ?d1 ''mode'' = Inr (JStr ''hold'')" by simp
  have m2: "get_prop ?d2 ''mode'' = Inr (JStr ''hold'')" by simp
  have m: "''hold'' \<in> {''set'', ''linear'', ''hold'', ''repeat''}" by simp
  have f: "\<forall>k \<in> set (mode_fields ''hold''). get_prop ?d1 k = get_prop ?d2 k"
    by (simp add: mode_fields_def)
  show ?thesis by (rule display_step_mode_fields_only [OF m1 m2 m f])
qed

section \<open>Properties of the steps table\<close>

text \<open>
  Strings are ordered as the default comparison of \<^verbatim>\<open>Array.prototype.sort\<close> orders them:
  lexicographically, code unit by code unit. \<open>sorted\<close> below is with respect to that
  order, in which \<^verbatim>\<open>10\<close> comes before \<^verbatim>\<open>2\<close>.

  Claim C1. Whenever the success callback of the program request sets the steps
  container, its content is the rows of the keys of the parsed steps in ascending string
  order: the keys of the rows, in the order of the rows, are a sorted rearrangement of the
  keys. For the steps with the keys 2, 10 and 1 the rows come in the order 1, 10, 2.
  (The container is untouched before the callback runs, in every history:
  \<open>run_awaiting\<close>.)
\<close>

theorem rows_in_string_order:
  assumes "program_details s = None"
    and "program_details (program_loaded nts parse response s) = Some html"
  shows "\<exists>sd ks. step_data (program_loaded nts parse response s) = Some sd \<and>
           html = concat (map (\<lambda>k. table_row k (cell nts sd k)) ks) \<and>
           sorted ks \<and> mset ks = mset (for_in_keys sd)"
proof -
  from program_loaded_details [OF assms] obtain sd
    where sd: "step_data (program_loaded nts parse response s) = Some sd"
      and rows: "render_rows nts sd (sort (for_in_keys sd)) [] = (html, None)"
    by blast
  from render_rows_written [OF rows]
  have "html = concat (map (\<lambda>k. table_row k (cell nts sd k)) (sort (for_in_keys sd)))"
    by simp
  with sd show ?thesis
    by (intro exI [of _ sd] exI [of _ "sort (for_in_keys sd)"]) simp
qed

theorem rows_in_string_order_witness:
  "program_details (program_loaded show_int example_parse keyed_response (ready example_url)) =
     Some (''<tr><td>1</td><td>Hold at 20&deg;C</td></tr>'' @
           ''<tr><td>10</td><td>Set to 30&deg;C for 5 seconds</td></tr>'' @
           ''<tr><td>2</td><td>Hold at 50&deg;C</td></tr>'') \<and>
   sort (for_in_keys keyed_steps) = [''1'', ''10'', ''2'']"
proof -
  let ?s = "ready example_url :: int page"
  have pre: "program_details ?s = None"
    by (simp add: ready_def http_def)
  have post: "program_details (program_loaded show_int example_parse keyed_response ?s) =
     Some (''<tr><td>1</td><td>Hold at 20&deg;C</td></tr>'' @
           ''<tr><td>10</td><td>Set to 30&deg;C for 5 seconds</td></tr>'' @
           ''<tr><td>2</td><td>Hold at 50&deg;C</td></tr>'')"
    by code_simp
  have keys: "sort (for_in_keys keyed_steps) = [''1'', ''10'', ''2'']"
    by code_simp
  from rows_in_string_order [OF pre post] post keys show ?thesis
    by blast
qed



text \<open>
  The example of the spec, first as markup. Given that \<^verbatim>\<open>JSON.parse\<close> reads the steps
  text of the response as the object with the single key 1 and the step of mode
  \<^verbatim>\<open>hold\<close> at a temperature whose text is \<^verbatim>\<open>180\<close>: after the program response and
  the driver response, the arguments passed to \<^verbatim>\<open>.html(...)\<close> are \<^verbatim>\<open>Bake\<close>,
  \<^verbatim>\<open>Driver: OvenX\<close> and the markup of one row, in which the degree sign is spelled
  \<^verbatim>\<open>&deg;\<close>.
\<close>

lemma bake_markup:
  assumes "parse bake_steps_text =
             Inr (JObj [(''1'', JObj [(''mode'', JStr ''hold''), (''temperature'', JNum t)])])"
    and "nts t = ''180''"
  shows "program_title (run nts parse (ready get_id)
             [Success 0 bake_response, Success 1 oven_response]) = Some (JStr ''Bake'')"
    and "driver_name (run nts parse (ready get_id)
             [Success 0 bake_response, Success 1 oven_response]) = Some ''Driver: OvenX''"
    and "program_details (run nts parse (ready get_id)
             [Success 0 bake_response, Success 1 oven_response]) =
           Some ''<tr><td>1</td><td>Hold at 180&deg;C</td></tr>''"
  using assms
  by (simp_all add: run_def ready_def http_def run_callback_def program_loaded_def
      driver_loaded_def bake_response_def oven_response_def plus_field_def collect_keys_eq
      for_in_keys_def display_step_def mode_is_def)

lemma rendered_bake:
  "rendered ''Bake'' = ''Bake''"
  "rendered ''Driver: OvenX'' = ''Driver: OvenX''"
  "rendered ''<tr><td>1</td><td>Hold at 180&deg;C</td></tr>'' =
     ''<tr><td>1</td><td>Hold at 180'' @ [CHR 0xB0] @ ''C</td></tr>''"
  by code_simp+

text \<open>
  Claim C7. Given the program response of the example (name \<^verbatim>\<open>Bake\<close>, driver 7,
  scientist \<^verbatim>\<open>alice\<close>, and the steps text with the single key 1 and the step of mode
  \<^verbatim>\<open>hold\<close> at temperature 180, which \<^verbatim>\<open>JSON.parse\<close> reads as that object) and the
  driver response with the name \<^verbatim>\<open>OvenX\<close>: the title element is set to \<^verbatim>\<open>Bake\<close>, the
  driver-name element shows \<^verbatim>\<open>Driver: OvenX\<close>, and the steps container shows exactly
  one row, with 1 in its first cell and, in its second, \<^verbatim>\<open>Hold at 180\<close>, the degree
  sign (the code unit B0) and \<^verbatim>\<open>C\<close>.
\<close>

theorem bake_example:
  assumes "parse bake_steps_text =
             Inr (JObj [(''1'', JObj [(''mode'', JStr ''hold''), (''temperature'', JNum t)])])"
    and "nts t = ''180''"
  shows "program_title (run nts parse (ready get_id)
             [Success 0 bake_response, Success 1 oven_response]) = Some (JStr ''Bake'') \<and>
         rendered ''Bake'' = ''Bake'' \<and>
         map_option rendered (driver_name (run nts parse (ready get_id)
             [Success 0 bake_response, Success 1 oven_response])) = Some ''Driver: OvenX'' \<and>
         map_option rendered (program_details (run nts parse (ready get_id)
             [Success 0 bake_response, Success 1 oven_response])) =
           Some (''<tr><td>1</td><td>Hold at 180'' @ [CHR 0xB0] @ ''C</td></tr>'')"
  using bake_markup [where parse = parse and nts = nts and t = t and get_id = get_id,
      OF assms]
  by (simp add: rendered_bake)

theorem bake_example_witness:
  "program_title (run show_int example_parse (ready example_url)
       [Success 0 bake_response, Success 1 oven_response]) = Some (JStr ''Bake'') \<and>
   rendered ''Bake'' = ''Bake'' \<and>
   map_option rendered (driver_name (run show_int example_parse (ready example_url)
       [Success 0 bake_response, Success 1 oven_response])) = Some ''Driver: OvenX'' \<and>
   map_option rendered (program_details (run show_int example_parse (ready example_url)
       [Success 0 bake_response, Success 1 oven_response])) =
     Some (''<tr><td>1</td><td>Hold at 180'' @ [CHR 0xB0] @ ''C</td></tr>'')"
proof -
  have p: "example_parse bake_steps_text =
      Inr (JObj [(''1'', JObj [(''mode'', JStr ''hold''), (''temperature'', JNum 180)])])"
    by (simp add: example_parse_def parse_table_def bake_steps_def)
  have n: "show_int 180 = ''180''"
    by code_simp
  show ?thesis
    by (rule bake_example [where parse = example_parse and nts = show_int and t = 180
          and get_id = example_url, OF p n])
qed

section \<open>Properties of the page over time\<close>

text \<open>
  A history of the page is the list of events after the ready handler. In the theorems
  below, the program request is request 0, and a request succeeds at the first event
  \<open>Success\<close> that carries its number.

  Claim C5. A click on the delete control whose prompt is declined leaves the page as it
  is: no request is issued, the location is not assigned, and nothing else changes.
\<close>

theorem click_declined: "step nts parse s (Click False) = s"
  by (simp add: delete_clicked_def)

theorem click_declined_witness:
  "step show_int example_parse (ready example_url) (Click False) = ready example_url"
  by (rule click_declined)

text \<open>
  Claim C4. Let the program request have succeeded with a response whose \<^verbatim>\<open>scientist\<close>
  has the text \<open>user\<close>, and let the delete control be clicked later, in the state
  \<open>s1\<close>, and the prompt accepted. Then the click issues one more request, a
  \<^verbatim>\<open>DELETE\<close> to \<^verbatim>\<open>program/\<close> followed by the program id; and when that request succeeds,
  whatever else has happened in between, the location is set to \<^verbatim>\<open>/program?user=\<close>
  followed by \<open>user\<close>.
\<close>

theorem delete_confirmed_navigates:
  assumes before: "\<forall>r. Success 0 r \<notin> set es1"
    and sci: "get_prop resp ''scientist'' = Inr sci"
    and user: "to_string nts sci = Inr user"
    and s1: "s1 = run nts parse (ready get_id) (es1 @ [Success 0 resp] @ es2)"
    and s2: "s2 = step nts parse s1 (Click True)"
    and between: "\<forall>r. Success (length (requests s1)) r \<notin> set es3"
    and s3: "s3 = run nts parse s2 es3"
  shows "requests s2 = requests s1 @
           [\<lparr>meth = ''DELETE'', path = ''program/'' @ get_id ''id'', on_success = OnDelete,
             fired = False\<rparr>] \<and>
         location (step nts parse s3 (Success (length (requests s1)) r)) =
           Some (''/program?user='' @ user)"
proof -
  let ?pid = "get_id ''id''"
  let ?a = "run nts parse (ready get_id) es1 :: 'a page"
  let ?b = "step nts parse ?a (Success 0 resp)"
  have inv_a: "page_inv ?pid ?a" by (simp add: run_inv ready_inv)
  have aw_a: "awaiting_program ?a"
    using before by (intro run_awaiting [of ?pid]) (simp_all add: ready_inv ready_awaiting)
  have arr_b: "program_arrived sci ?b" using inv_a aw_a sci by (rule program_success)
  have inv_b: "page_inv ?pid ?b" using inv_a by (rule step_inv)
  have s1': "s1 = run nts parse ?b es2" by (simp add: s1 run_append run_Cons)
  have inv1: "page_inv ?pid s1" unfolding s1' using inv_b by (rule run_inv)
  have arr1: "program_arrived sci s1" unfolding s1' using inv_b arr_b by (rule run_arrived)
  have inv2: "page_inv ?pid s2" unfolding s2 using inv1 by (rule step_inv)
  have arr2: "program_arrived sci s2" unfolding s2 using inv1 arr1 by (rule step_arrived)
  have pend2: "delete_pending (length (requests s1)) s2" unfolding s2 by (rule click_pending)
  have arr3: "program_arrived sci s3" unfolding s3 using inv2 arr2 by (rule run_arrived)
  have pend3: "delete_pending (length (requests s1)) s3"
    unfolding s3 using pend2 between by (rule run_pending)
  from arr3 have "scientist s3 = Some sci" by (simp add: program_arrived_def)
  with pend3 have "location (step nts parse s3 (Success (length (requests s1)) r)) =
      Some (''/program?user='' @ user)"
    using user by (rule delete_success)
  moreover from inv1 have "requests s2 = requests s1 @
      [\<lparr>meth = ''DELETE'', path = ''program/'' @ ?pid, on_success = OnDelete, fired = False\<rparr>]"
    by (simp add: s2 delete_clicked_def http_def page_inv_def)
  ultimately show ?thesis by simp
qed

theorem delete_confirmed_navigates_witness:
  "location
     (step show_int example_parse
        (step show_int example_parse
           (run show_int example_parse (ready example_url)
              [Success 0 bake_response, Success 1 oven_response])
           (Click True))
        (Success 2 JNull)) = Some ''/program?user=alice''"
proof -
  let ?s1 = "run show_int example_parse (ready example_url)
               ([] @ [Success 0 bake_response] @ [Success 1 oven_response])"
  let ?s2 = "step show_int example_parse ?s1 (Click True)"
  have before: "\<forall>r. Success 0 r \<notin> set ([] :: int event list)" by simp
  have sci: "get_prop (bake_response :: int val) ''scientist'' = Inr (JStr ''alice'')"
    by (simp add: bake_response_def)
  have user: "to_string show_int (JStr ''alice'') = Inr ''alice''" by simp
  have len: "length (requests ?s1) = 2" by code_simp
  have between: "\<forall>r. Success (length (requests ?s1)) r \<notin> set ([] :: int event list)"
    by simp
  have "location (step show_int example_parse (run show_int example_parse ?s2 [])
          (Success (length (requests ?s1)) JNull)) = Some (''/program?user='' @ ''alice'')"
    using delete_confirmed_navigates [OF before sci user refl refl between refl, of JNull]
    by (rule conjunct2)
  then show ?thesis
    unfolding len by (simp only: run_def foldl.simps append.simps)
qed

text \<open>
  Claim C6. In a history in which the program request never succeeds, every request the
  page has issued goes to the program path and none is the driver request, and the steps
  container is as it was before rendering.
\<close>

theorem no_driver_request_before_program:
  assumes "\<forall>r. Success 0 r \<notin> set es"
  shows "(\<forall>q \<in> set (requests (run nts parse (ready get_id) es)).
            on_success q \<noteq> OnDriver \<and> path q = ''program/'' @ get_id ''id'') \<and>
         program_details (run nts parse (ready get_id) es) = None"
proof -
  let ?s = "run nts parse (ready get_id) es :: 'a page"
  have inv: "page_inv (get_id ''id'') ?s" by (simp add: run_inv ready_inv)
  have aw: "awaiting_program ?s"
    using assms
    by (intro run_awaiting [of "get_id ''id''"]) (simp_all add: ready_inv ready_awaiting)
  have "on_success q \<noteq> OnDriver \<and> path q = ''program/'' @ get_id ''id''"
    if "q \<in> set (requests ?s)" for q
  proof -
    from that obtain i where i: "i < length (requests ?s)" and q: "q = requests ?s ! i"
      by (auto simp add: in_set_conv_nth)
    show ?thesis
    proof (cases "i = 0")
      case True
      with inv q show ?thesis
        by (simp add: page_inv_def requests_inv_def program_request_def)
    next
      case False
      with inv aw i q show ?thesis
        by (auto simp add: page_inv_def requests_inv_def awaiting_program_def
            later_request_def)
    qed
  qed
  with aw show ?thesis by (simp add: awaiting_program_def)
qed

theorem no_driver_request_before_program_witness:
  "program_details (run show_int example_parse (ready example_url)
      [Click True, Success 1 JNull, Click False]) = None \<and>
   map path (requests (run show_int example_parse (ready example_url)
      [Click True, Success 1 JNull, Click False])) = [''program/42'', ''program/42'']"
proof -
  have h: "\<forall>r. Success 0 r \<notin> set [Click True, Success 1 (JNull :: int val), Click False]"
    by simp
  have paths: "map path (requests (run show_int example_parse (ready example_url)
      [Click True, Success 1 JNull, Click False])) = [''program/42'', ''program/42'']"
    by code_simp
  from no_driver_request_before_program [OF h, of show_int example_parse example_url] paths
  show ?thesis by blast
qed

text \<open>
  Claim C10. In every history the URL reader has been called once, for the parameter
  \<^verbatim>\<open>id\<close>; the program id is what it returned; the first request is the \<^verbatim>\<open>GET\<close> of
  \<^verbatim>\<open>program/\<close> followed by that id; and every \<^verbatim>\<open>DELETE\<close> request goes to the same path.
\<close>

theorem program_id_read_once:
  "get_id_calls (run nts parse (ready get_id) es) = [''id''] \<and>
   program_id (run nts parse (ready get_id) es) = get_id ''id'' \<and>
   meth (requests (run nts parse (ready get_id) es) ! 0) = ''GET'' \<and>
   path (requests (run nts parse (ready get_id) es) ! 0) = ''program/'' @ get_id ''id'' \<and>
   (\<forall>q \<in> set (requests (run nts parse (ready get_id) es)).
      meth q = ''DELETE'' \<longrightarrow> path q = ''program/'' @ get_id ''id'')"
proof -
  let ?s = "run nts parse (ready get_id) es :: 'a page"
  have inv: "page_inv (get_id ''id'') ?s" by (simp add: run_inv ready_inv)
  have "path q = ''program/'' @ get_id ''id''"
    if "q \<in> set (requests ?s)" and "meth q = ''DELETE''" for q
  proof -
    from that obtain i where i: "i < length (requests ?s)" and q: "q = requests ?s ! i"
      by (auto simp add: in_set_conv_nth)
    show ?thesis
    proof (cases "i = 0")
      case True
      with inv q that show ?thesis
        by (simp add: page_inv_def requests_inv_def program_request_def)
    next
      case False
      with inv i q that show ?thesis
        by (auto simp add: page_inv_def requests_inv_def later_request_def)
    qed
  qed
  with inv show ?thesis
    by (simp add: page_inv_def requests_inv_def program_request_def)
qed

theorem program_id_read_once_witness:
  "get_id_calls (run show_int example_parse (ready example_url)
      [Success 0 bake_response, Click True]) = [''id''] \<and>
   path (requests (run show_int example_parse (ready example_url)
      [Success 0 bake_response, Click True]) ! 0) = ''program/42'' \<and>
   meth (requests (run show_int example_parse (ready example_url)
      [Success 0 bake_response, Click True]) ! 2) = ''DELETE'' \<and>
   path (requests (run show_int example_parse (ready example_url)
      [Success 0 bake_response, Click True]) ! 2) = ''program/42''"
proof -
  let ?s = "run show_int example_parse (ready example_url)
              [Success 0 bake_response, Click True]"
  have id: "example_url ''id'' = ''42''"
    by (simp add: example_url_def query_def)
  have len: "length (requests ?s) = 3" by code_simp
  have del: "meth (requests ?s ! 2) = ''DELETE''" by code_simp
  from len have mem: "requests ?s ! 2 \<in> set (requests ?s)" by simp
  from program_id_read_once [of show_int example_parse example_url
      "[Success 0 bake_response, Click True]"] mem del id
  show ?thesis by auto
qed

end
